theory Spec2Isabelle
  imports Complex_Main "HOL-Library.Char_ord" "HOL-Library.List_Lexorder"
begin

section \<open>Postage stamps of catalog objects: the module \<open>desclamp/postage.py\<close>\<close>

text \<open>
  The module is glue around three external services: the GCR catalog reader, the
  data butler with its sky map, and matplotlib. The services are parameters of the
  model (records of functions); the code of \<open>Candidates\<close> itself is translated line
  by line. Exceptions are values of the type \<open>error\<close>, and a function that can raise
  returns \<open>error + 'a\<close> with \<open>Inl\<close> for the exception.
\<close>

subsection \<open>Exceptions\<close>

datatype error =
    AssertionError
  | IndexError
  | UnboundLocalError
  | ExternalError string

subsection \<open>Python's \<open>str\<close> of an integer\<close>

text \<open>
  The f-strings of \<open>catalog_query\<close> and the \<open>str\<close> of \<open>display_cutouts\<close> print an
  integer in decimal, with a minus sign for a negative one.
\<close>

definition digit_char :: "nat \<Rightarrow> char" where
  "digit_char d = ''0123456789'' ! d"

function str_nat :: "nat \<Rightarrow> string" where
  "str_nat n = (if n < 10 then [digit_char n] else str_nat (n div 10) @ [digit_char (n mod 10)])"
  by pat_completeness auto
termination
  by (relation "measure id") auto

declare str_nat.simps [simp del]

definition str_int :: "int \<Rightarrow> string" where
  "str_int i = (if i < 0 then CHR ''-'' # str_nat (nat (- i)) else str_nat (nat i))"

subsection \<open>The catalog\<close>

text \<open>
  The GCR catalog is external. Its two methods used here are \<open>has_quantities\<close>, a
  test on a list of column names, and \<open>get_quantities\<close>, which takes the columns, the
  filter expression and the native filter and returns the table or raises. Every call
  the code makes is recorded as an event, in order, so that what reaches the catalog
  and when can be stated.
\<close>

record 'tbl catalog =
  has_quantities :: "string list \<Rightarrow> bool"
  get_quantities :: "string list \<Rightarrow> string \<Rightarrow> string \<Rightarrow> error + 'tbl"

datatype event =
    HasQuantities "string list"
  | GetQuantities "string list" string string

subsection \<open>\<open>np.unique\<close> on a list of strings\<close>

text \<open>
  \<open>np.unique\<close> first turns the list into a fixed-width unicode array, whose elements
  are padded with NUL and so lose their trailing NUL characters, and returns the
  distinct elements in ascending order (code points, lexicographically). Characters
  here are the 8-bit \<open>char\<close> of HOL, ordered by their code.
\<close>

definition np_str :: "string \<Rightarrow> string" where
  "np_str s = rev (dropWhile (\<lambda>c. c = CHR 0x00) (rev s))"

definition np_unique :: "string list \<Rightarrow> string list" where
  "np_unique xs = sort (remdups (map np_str xs))"

subsection \<open>\<open>Candidates.catalog_query\<close>\<close>

text \<open>Line 59: the minimum set of columns.\<close>

definition base_columns :: "string list" where
  "base_columns = [''objectId'', ''ra'', ''dec'', ''tract'', ''patch'']"

text \<open>Lines 59 to 62: \<open>columns_to_get\<close> as it stands before the assertion.\<close>

definition columns_to_get :: "string list option \<Rightarrow> string list" where
  "columns_to_get columns =
     (case columns of
        None \<Rightarrow> base_columns
      | Some cs \<Rightarrow> np_unique (base_columns @ cs))"

text \<open>
  Lines 68 to 70, the body of \<open>if tracts is not None\<close>: \<open>tracts[0]\<close> raises IndexError
  on an empty list; the loop over \<open>tracts[1:]\<close> appends one disjunct per tract.
\<close>

definition tract_term :: "int \<Rightarrow> string" where
  "tract_term t = ''(tract == '' @ str_int t @ '')''"

fun filters :: "int list \<Rightarrow> error + string" where
  "filters [] = Inl IndexError"
| "filters (t # ts) = Inr (foldl (\<lambda>f t'. f @ '' | '' @ tract_term t') (tract_term t) ts)"

text \<open>
  The whole method. The assertion of line 64 comes first. When \<open>tracts\<close> is None the
  local variable \<open>filters\<close> is never assigned, and line 71 reads it: Python raises
  UnboundLocalError before \<open>get_quantities\<close> is called. \<open>pd.DataFrame\<close> only wraps
  the result and is the identity here.
\<close>

definition catalog_query ::
  "'tbl catalog \<Rightarrow> string \<Rightarrow> string list option \<Rightarrow> int list option
     \<Rightarrow> event list \<times> (error + 'tbl)" where
  "catalog_query cat query columns tracts =
     (let cols = columns_to_get columns in
      if \<not> has_quantities cat cols then ([HasQuantities cols], Inl AssertionError)
      else
        (case tracts of
           None \<Rightarrow> ([HasQuantities cols], Inl UnboundLocalError)
         | Some ts \<Rightarrow>
             (case filters ts of
                Inl e \<Rightarrow> ([HasQuantities cols], Inl e)
              | Inr f \<Rightarrow>
                  ([HasQuantities cols, GetQuantities cols query f],
                   get_quantities cat cols query f))))"

text \<open>A catalog for the examples: it has every column and returns the request itself.\<close>

definition echo_catalog :: "(string list \<times> string \<times> string) catalog" where
  "echo_catalog =
     \<lparr> has_quantities = (\<lambda>cols. True),
       get_quantities = (\<lambda>cols query f. Inr (cols, query, f)) \<rparr>"

text \<open>Which columns a call to the catalog was given.\<close>

definition event_columns :: "event \<Rightarrow> string list" where
  "event_columns e = (case e of HasQuantities c \<Rightarrow> c | GetQuantities c q f \<Rightarrow> c)"

text \<open>
  The tract filter in the words of the specification: the terms \<open>(tract == t)\<close> of the
  given tracts, in their order, joined by \<open>|\<close>.
\<close>

fun disjunction :: "string list \<Rightarrow> string" where
  "disjunction [] = []"
| "disjunction [d] = d"
| "disjunction (d # ds) = d @ '' | '' @ disjunction ds"

definition spec_tract_filter :: "int list \<Rightarrow> string" where
  "spec_tract_filter ts = disjunction (map tract_term ts)"

subsection \<open>The LSST stack: sky map, butler and geometry\<close>

text \<open>
  A row of the object table has the five identifying fields; further columns live in
  the record's extension. \<open>ra\<close> and \<open>dec\<close> are Python floats, idealised as reals: the
  code hands them on and subtracts half the cutout size from the pixel centre.
\<close>

record object_row =
  objectId :: int
  ra :: real
  dec :: real
  tract :: int
  patch :: string

text \<open>\<open>lsst.geom.BoxI(corner, extent)\<close> as the two arguments it is built from.\<close>

record bbox =
  corner :: "int \<times> int"
  extent :: "int \<times> int"

text \<open>
  The calls into the stack, each of which can raise:
  \<^item> \<open>get_skyMap\<close>: \<open>butler.get('deepCoadd_skyMap')\<close>;
  \<^item> \<open>sky_to_pixel\<close>: \<open>skymap.findTract(radec).getWcs().skyToPixel(radec)\<close> for the
    sphere point of \<open>(ra, dec)\<close> in degrees;
  \<^item> \<open>Point2I\<close>: \<open>lsst.geom.Point2I\<close> of a pair of floats, whose conversion to
    integers is the library's;
  \<^item> \<open>get_sub\<close>: \<open>butler.get("deepCoadd_sub", bbox, tract, patch, filter)\<close>;
  \<^item> \<open>fits_metadata\<close>: \<open>getWcs().getFitsMetadata()\<close> of a cutout.
\<close>

record ('sm, 'img, 'wcs) stack =
  get_skyMap :: "error + 'sm"
  sky_to_pixel :: "'sm \<Rightarrow> real \<Rightarrow> real \<Rightarrow> error + real \<times> real"
  Point2I :: "real \<times> real \<Rightarrow> error + int \<times> int"
  get_sub :: "bbox \<Rightarrow> int \<Rightarrow> string \<Rightarrow> char \<Rightarrow> error + 'img"
  fits_metadata :: "'img \<Rightarrow> error + 'wcs"

text \<open>The dictionary \<open>cutouts\<close> with its three keys.\<close>

record ('img, 'wcs, 'row) cutouts =
  images :: "'img list list"
  wcs :: "'wcs list"
  GCR :: "'row list"

subsection \<open>\<open>Candidates.make_postage_stamps\<close>\<close>

text \<open>
  The list comprehension of lines 100 to 105: one \<open>butler.get\<close> per band, in order; the
  first one that raises ends it.
\<close>

fun get_bands :: "(char \<Rightarrow> error + 'img) \<Rightarrow> string \<Rightarrow> error + 'img list" where
  "get_bands g [] = Inr []"
| "get_bands g (band # bands) =
     (case g band of
        Inl e \<Rightarrow> Inl e
      | Inr im \<Rightarrow> (case get_bands g bands of Inl e \<Rightarrow> Inl e | Inr ims \<Rightarrow> Inr (im # ims)))"

text \<open>Lines 96 to 98: the bounding box of one object.\<close>

definition object_bbox ::
  "('sm, 'img, 'wcs) stack \<Rightarrow> 'sm \<Rightarrow> int \<Rightarrow> 'a object_row_scheme \<Rightarrow> error + bbox" where
  "object_bbox env skymap cutout_size object_this =
     (case sky_to_pixel env skymap (ra object_this) (dec object_this) of
        Inl e \<Rightarrow> Inl e
      | Inr center \<Rightarrow>
          (case Point2I env (fst center - real_of_int cutout_size * 0.5,
                             snd center - real_of_int cutout_size * 0.5) of
             Inl e \<Rightarrow> Inl e
           | Inr p \<Rightarrow> Inr \<lparr> corner = p, extent = (cutout_size, cutout_size) \<rparr>))"

text \<open>
  Lines 96 to 108, one turn of the loop: the cutouts of the bands and the metadata of
  the first of them. \<open>cutout[0]\<close> raises IndexError when the band string is empty.
\<close>

definition stamp ::
  "('sm, 'img, 'wcs) stack \<Rightarrow> 'sm \<Rightarrow> int \<Rightarrow> string \<Rightarrow> 'a object_row_scheme
     \<Rightarrow> error + 'img list \<times> 'wcs" where
  "stamp env skymap cutout_size bands object_this =
     (case object_bbox env skymap cutout_size object_this of
        Inl e \<Rightarrow> Inl e
      | Inr box \<Rightarrow>
          (case get_bands (get_sub env box (tract object_this) (patch object_this)) bands of
             Inl e \<Rightarrow> Inl e
           | Inr cutout \<Rightarrow>
               (case cutout of
                  [] \<Rightarrow> Inl IndexError
                | c # _ \<Rightarrow>
                    (case fits_metadata env c of
                       Inl e \<Rightarrow> Inl e
                     | Inr w \<Rightarrow> Inr (cutout, w)))))"

text \<open>The loop over the rows (\<open>iterrows\<close> yields them in order), appending to the three lists.\<close>

fun stamps_loop ::
  "('sm, 'img, 'wcs) stack \<Rightarrow> 'sm \<Rightarrow> int \<Rightarrow> string
     \<Rightarrow> ('img, 'wcs, 'a object_row_scheme) cutouts \<Rightarrow> 'a object_row_scheme list
     \<Rightarrow> error + ('img, 'wcs, 'a object_row_scheme) cutouts" where
  "stamps_loop env skymap cutout_size bands acc [] = Inr acc"
| "stamps_loop env skymap cutout_size bands acc (object_this # rest) =
     (case stamp env skymap cutout_size bands object_this of
        Inl e \<Rightarrow> Inl e
      | Inr (cutout, w) \<Rightarrow>
          stamps_loop env skymap cutout_size bands
            \<lparr> images = images acc @ [cutout],
              wcs = wcs acc @ [w],
              GCR = GCR acc @ [object_this] \<rparr> rest)"

definition make_postage_stamps ::
  "('sm, 'img, 'wcs) stack \<Rightarrow> 'a object_row_scheme list \<Rightarrow> int \<Rightarrow> string
     \<Rightarrow> error + ('img, 'wcs, 'a object_row_scheme) cutouts" where
  "make_postage_stamps env objects cutout_size bands =
     (case get_skyMap env of
        Inl e \<Rightarrow> Inl e
      | Inr skymap \<Rightarrow>
          stamps_loop env skymap cutout_size bands \<lparr> images = [], wcs = [], GCR = [] \<rparr> objects)"

text \<open>A stack for the examples: every call succeeds and a cutout is the request itself.\<close>

definition echo_stack :: "(unit, bbox \<times> int \<times> string \<times> char, bbox) stack" where
  "echo_stack =
     \<lparr> get_skyMap = Inr (),
       sky_to_pixel = (\<lambda>skymap r d. Inr (r * 10, d * 10)),
       Point2I = (\<lambda>p. Inr (\<lfloor>fst p\<rfloor>, \<lfloor>snd p\<rfloor>)),
       get_sub = (\<lambda>box t p band. Inr (box, t, p, band)),
       fits_metadata = (\<lambda>im. Inr (fst im)) \<rparr>"

definition row_a :: object_row where
  "row_a = \<lparr> objectId = 7, ra = 55.5, dec = 20, tract = 4850, patch = ''1,2'' \<rparr>"

definition row_b :: object_row where
  "row_b = \<lparr> objectId = 12, ra = 56, dec = 21.25, tract = 4850, patch = ''3,4'' \<rparr>"

subsection \<open>\<open>Candidates.display_cutouts\<close>\<close>

text \<open>
  The calls into the plotting libraries that can raise: \<open>rgb.makeRGB(*image, dataRange,
  Q)\<close> and \<open>WCS(header)\<close>. An axes of the figure is recorded with the cell of the grid
  it was put in, its projection, its label and the picture shown. The tick settings of
  lines 129 to 131 are the same constants for every axes and are left out.
\<close>

record ('img, 'wcs, 'rgb, 'proj) plotting =
  makeRGB :: "'img list \<Rightarrow> int \<Rightarrow> int \<Rightarrow> error + 'rgb"
  WCS :: "'wcs \<Rightarrow> error + 'proj"

record ('rgb, 'proj) axes =
  cell :: nat
  projection :: 'proj
  label :: string
  shown :: 'rgb

record ('rgb, 'proj) figure =
  nrows :: nat
  ncols :: nat
  subplots :: "('rgb, 'proj) axes list"

text \<open>
  Line 118: \<open>int(np.sqrt(n)+1)\<close>. The square root is a float, idealised as a real;
  \<open>int\<close> truncates, which on a positive number is the floor.
\<close>

definition grid_side :: "nat \<Rightarrow> nat" where
  "grid_side n = nat \<lfloor>sqrt (real n) + 1\<rfloor>"

text \<open>The integer square root, to compute \<open>grid_side\<close> on a numeral.\<close>

primrec isqrt :: "nat \<Rightarrow> nat" where
  "isqrt 0 = 0"
| "isqrt (Suc n) = (let r = isqrt n in if (r + 1) * (r + 1) \<le> Suc n then r + 1 else r)"

text \<open>
  \<open>gs[i]\<close> on a grid of \<open>nrows\<close> by \<open>ncols\<close>: cell \<open>i\<close> in row-major order, IndexError
  when \<open>i\<close> is not below the number of cells. \<open>xs[i]\<close> on a list likewise.
\<close>

definition gs_getitem :: "nat \<Rightarrow> nat \<Rightarrow> nat \<Rightarrow> error + nat" where
  "gs_getitem rows cols i = (if i < rows * cols then Inr i else Inl IndexError)"

definition getitem :: "'a list \<Rightarrow> nat \<Rightarrow> error + 'a" where
  "getitem xs i = (if i < length xs then Inr (xs ! i) else Inl IndexError)"

text \<open>Lines 121 to 126, one turn of the loop, in the order Python evaluates it.\<close>

definition draw_entry ::
  "('img, 'wcs, 'rgb, 'proj) plotting \<Rightarrow> ('img, 'wcs, 'a object_row_scheme) cutouts
     \<Rightarrow> nat \<Rightarrow> nat \<Rightarrow> error + ('rgb, 'proj) axes" where
  "draw_entry plt cs side i =
     (case getitem (images cs) i of
        Inl e \<Rightarrow> Inl e
      | Inr img \<Rightarrow>
     (case makeRGB plt img 2 8 of
        Inl e \<Rightarrow> Inl e
      | Inr image_rgb \<Rightarrow>
     (case gs_getitem side side i of
        Inl e \<Rightarrow> Inl e
      | Inr c \<Rightarrow>
     (case getitem (wcs cs) i of
        Inl e \<Rightarrow> Inl e
      | Inr w \<Rightarrow>
     (case WCS plt w of
        Inl e \<Rightarrow> Inl e
      | Inr proj \<Rightarrow>
     (case getitem (GCR cs) i of
        Inl e \<Rightarrow> Inl e
      | Inr object_this \<Rightarrow>
          Inr \<lparr> cell = c, projection = proj,
                label = str_int (objectId object_this), shown = image_rgb \<rparr>))))))"

fun display_loop ::
  "('img, 'wcs, 'rgb, 'proj) plotting \<Rightarrow> ('img, 'wcs, 'a object_row_scheme) cutouts
     \<Rightarrow> nat \<Rightarrow> nat list \<Rightarrow> ('rgb, 'proj) axes list \<Rightarrow> error + ('rgb, 'proj) axes list" where
  "display_loop plt cs side [] drawn = Inr drawn"
| "display_loop plt cs side (i # rest) drawn =
     (case draw_entry plt cs side i of
        Inl e \<Rightarrow> Inl e
      | Inr ax \<Rightarrow> display_loop plt cs side rest (drawn @ [ax]))"

text \<open>The method: \<open>cutout_size\<close> is a parameter and appears nowhere in the body.\<close>

definition display_cutouts ::
  "('img, 'wcs, 'rgb, 'proj) plotting \<Rightarrow> ('img, 'wcs, 'a object_row_scheme) cutouts
     \<Rightarrow> int \<Rightarrow> error + ('rgb, 'proj) figure" where
  "display_cutouts plt cs cutout_size =
     (let n = length (images cs); side = grid_side n in
      case display_loop plt cs side [0..<n] [] of
        Inl e \<Rightarrow> Inl e
      | Inr axs \<Rightarrow> Inr \<lparr> nrows = side, ncols = side, subplots = axs \<rparr>)"

text \<open>Plotting services for the examples: the picture is the list of band images.\<close>

definition echo_plotting ::
  "(bbox \<times> int \<times> string \<times> char, bbox, (bbox \<times> int \<times> string \<times> char) list, bbox) plotting" where
  "echo_plotting = \<lparr> makeRGB = (\<lambda>img dataRange Q. Inr img), WCS = (\<lambda>w. Inr w) \<rparr>"

text \<open>The cutouts of \<open>row_a\<close> and \<open>row_b\<close> in the bands \<open>irg\<close> from \<open>echo_stack\<close>.\<close>

definition two_stamps ::
  "(bbox \<times> int \<times> string \<times> char, bbox, object_row) cutouts" where
  "two_stamps =
     \<lparr> images =
         [[(\<lparr>corner = (505, 150), extent = (100, 100)\<rparr>, 4850, ''1,2'', CHR ''i''),
           (\<lparr>corner = (505, 150), extent = (100, 100)\<rparr>, 4850, ''1,2'', CHR ''r''),
           (\<lparr>corner = (505, 150), extent = (100, 100)\<rparr>, 4850, ''1,2'', CHR ''g'')],
          [(\<lparr>corner = (510, 162), extent = (100, 100)\<rparr>, 4850, ''3,4'', CHR ''i''),
           (\<lparr>corner = (510, 162), extent = (100, 100)\<rparr>, 4850, ''3,4'', CHR ''r''),
           (\<lparr>corner = (510, 162), extent = (100, 100)\<rparr>, 4850, ''3,4'', CHR ''g'')]],
       wcs = [\<lparr>corner = (505, 150), extent = (100, 100)\<rparr>,
              \<lparr>corner = (510, 162), extent = (100, 100)\<rparr>],
       GCR = [row_a, row_b] \<rparr>"

text \<open>The figure \<open>display_cutouts\<close> draws for \<open>two_stamps\<close> with \<open>echo_plotting\<close>.\<close>

definition two_figure ::
  "((bbox \<times> int \<times> string \<times> char) list, bbox) figure" where
  "two_figure =
     \<lparr> nrows = 2, ncols = 2,
       subplots =
         [\<lparr> cell = 0, projection = \<lparr>corner = (505, 150), extent = (100, 100)\<rparr>,
             label = ''7'', shown = images two_stamps ! 0 \<rparr>,
          \<lparr> cell = 1, projection = \<lparr>corner = (510, 162), extent = (100, 100)\<rparr>,
             label = ''12'', shown = images two_stamps ! 1 \<rparr>] \<rparr>"

section \<open>Properties of \<open>catalog_query\<close>\<close>

subsection \<open>The columns\<close>

lemma np_str_base_columns: "map np_str base_columns = base_columns"
  by (simp add: np_str_def base_columns_def)

lemma set_np_unique: "set (np_unique xs) = np_str ` set xs"
  by (simp add: np_unique_def)

lemma distinct_np_unique: "distinct (np_unique xs)"
  by (simp add: np_unique_def)

lemma sorted_np_unique: "sorted (np_unique xs)"
  by (simp add: np_unique_def)

lemma distinct_base_columns: "distinct base_columns"
  by (simp add: base_columns_def)

lemma base_in_columns_to_get: "set base_columns \<subseteq> set (columns_to_get columns)"
proof (cases columns)
  case None
  then show ?thesis by (simp add: columns_to_get_def)
next
  case (Some cs)
  have "set base_columns = np_str ` set base_columns"
    using np_str_base_columns by (metis set_map)
  then show ?thesis
    using Some by (auto simp: columns_to_get_def set_np_unique)
qed

lemma distinct_columns_to_get: "distinct (columns_to_get columns)"
  by (cases columns) (simp_all add: columns_to_get_def distinct_np_unique distinct_base_columns)

subsection \<open>The method by the value of \<open>tracts\<close>\<close>

lemma catalog_query_None:
  "catalog_query cat query columns None =
     ([HasQuantities (columns_to_get columns)],
      Inl (if has_quantities cat (columns_to_get columns)
           then UnboundLocalError else AssertionError))"
  by (simp add: catalog_query_def Let_def)

lemma catalog_query_Some:
  "catalog_query cat query columns (Some ts) =
     (if \<not> has_quantities cat (columns_to_get columns)
      then ([HasQuantities (columns_to_get columns)], Inl AssertionError)
      else case filters ts of
             Inl e \<Rightarrow> ([HasQuantities (columns_to_get columns)], Inl e)
           | Inr f \<Rightarrow> ([HasQuantities (columns_to_get columns),
                        GetQuantities (columns_to_get columns) query f],
                       get_quantities cat (columns_to_get columns) query f))"
  by (simp add: catalog_query_def Let_def)

text \<open>
  The calls a run makes: the schema test alone, or the schema test, which held,
  followed by one query on the same columns.
\<close>

lemma catalog_query_trace:
  "fst (catalog_query cat query columns tracts) = [HasQuantities (columns_to_get columns)] \<or>
   has_quantities cat (columns_to_get columns) \<and>
   (\<exists>f. fst (catalog_query cat query columns tracts) =
          [HasQuantities (columns_to_get columns),
           GetQuantities (columns_to_get columns) query f])"
proof (cases tracts)
  case None
  then show ?thesis by (simp add: catalog_query_None)
next
  case (Some ts)
  then show ?thesis by (simp add: catalog_query_Some split: sum.splits)
qed

subsection \<open>The tract filter\<close>

lemma foldl_disjunction:
  "foldl (\<lambda>f t'. f @ '' | '' @ tract_term t') (acc @ tract_term t) ts
     = acc @ disjunction (map tract_term (t # ts))"
proof (induction ts arbitrary: acc t)
  case Nil
  then show ?case by simp
next
  case (Cons u us)
  have "foldl (\<lambda>f t'. f @ '' | '' @ tract_term t') (acc @ tract_term t) (u # us)
        = foldl (\<lambda>f t'. f @ '' | '' @ tract_term t')
            ((acc @ tract_term t @ '' | '') @ tract_term u) us"
    by simp
  also have "\<dots> = (acc @ tract_term t @ '' | '') @ disjunction (map tract_term (u # us))"
    by (rule Cons.IH)
  finally show ?case by simp
qed

lemma filters_spec: "ts \<noteq> [] \<Longrightarrow> filters ts = Inr (spec_tract_filter ts)"
proof (cases ts)
  case Nil
  assume "ts \<noteq> []"
  with Nil show ?thesis by simp
next
  case (Cons t us)
  show ?thesis
    using foldl_disjunction [of "[]" t us] Cons by (simp add: spec_tract_filter_def)
qed

subsection \<open>The claims on \<open>catalog_query\<close>\<close>

text \<open>
  Claim C1 says that with \<open>tracts\<close> None the query is still run, without a tract
  filter. The code does not do that: \<open>filters\<close> is assigned only under \<open>if tracts is
  not None\<close>, so line 71 reads an unbound local. On a catalog that has every column,
  the call with both defaults raises UnboundLocalError after the schema test, and
  \<open>get_quantities\<close> is never called.
\<close>

theorem catalog_query_default_tracts_raises:
  "catalog_query echo_catalog ''mag_i < 24'' None None =
     ([HasQuantities [''objectId'', ''ra'', ''dec'', ''tract'', ''patch'']],
      Inl UnboundLocalError)"
  by (simp add: catalog_query_None echo_catalog_def columns_to_get_def base_columns_def)

text \<open>
  Claim C2: with \<open>tracts\<close> an empty list, \<open>tracts[0]\<close> raises IndexError and nothing
  guards it. The filter construction fails on the empty list, and the method, once
  past the assertion on the columns, raises that IndexError without ever querying the
  catalog (when the assertion fails, the AssertionError comes first).
\<close>

theorem catalog_query_empty_tracts:
  "filters [] = Inl IndexError \<and>
   catalog_query cat query columns (Some []) =
     ([HasQuantities (columns_to_get columns)],
      Inl (if has_quantities cat (columns_to_get columns)
           then IndexError else AssertionError))"
  by (simp add: catalog_query_Some)

text \<open>
  Claim C3: for any extra columns, None included, the columns given to the catalog
  contain the five base fields and have no duplicates, and they are tested against
  the schema before the query: a run either stops after the schema test, or the test
  held and the one query that follows it is on the same columns.
\<close>

theorem catalog_query_columns_checked:
  "set base_columns \<subseteq> set (columns_to_get columns) \<and>
   distinct (columns_to_get columns) \<and>
   (fst (catalog_query cat query columns tracts) = [HasQuantities (columns_to_get columns)] \<or>
    has_quantities cat (columns_to_get columns) \<and>
    (\<exists>f. fst (catalog_query cat query columns tracts) =
           [HasQuantities (columns_to_get columns),
            GetQuantities (columns_to_get columns) query f]))"
  using base_in_columns_to_get [of columns] distinct_columns_to_get [of columns]
    catalog_query_trace [of cat query columns tracts]
  by blast

text \<open>
  Claim C4: for a non-empty list of tracts the native filter is the disjunction
  \<open>(tract == t1) | ... | (tract == tk)\<close>, and it is the filter the catalog is queried
  with once the columns pass the schema test.
\<close>

theorem catalog_query_tract_filter:
  "ts \<noteq> [] \<Longrightarrow>
   filters ts = Inr (spec_tract_filter ts) \<and>
   (has_quantities cat (columns_to_get columns) \<longrightarrow>
    catalog_query cat query columns (Some ts) =
      ([HasQuantities (columns_to_get columns),
        GetQuantities (columns_to_get columns) query (spec_tract_filter ts)],
       get_quantities cat (columns_to_get columns) query (spec_tract_filter ts)))"
  by (simp add: filters_spec catalog_query_Some)

theorem catalog_query_tract_filter_witness:
  "[10, 20, 30] \<noteq> ([] :: int list) \<and>
   spec_tract_filter [10, 20, 30] = ''(tract == 10) | (tract == 20) | (tract == 30)'' \<and>
   filters [10, 20, 30] = Inr ''(tract == 10) | (tract == 20) | (tract == 30)'' \<and>
   has_quantities echo_catalog (columns_to_get None) \<and>
   catalog_query echo_catalog ''mag_i < 24'' None (Some [10, 20, 30]) =
     ([HasQuantities base_columns,
       GetQuantities base_columns ''mag_i < 24''
         ''(tract == 10) | (tract == 20) | (tract == 30)''],
      Inr (base_columns, ''mag_i < 24'', ''(tract == 10) | (tract == 20) | (tract == 30)''))"
proof -
  have s: "spec_tract_filter [10, 20, 30] = ''(tract == 10) | (tract == 20) | (tract == 30)''"
    by code_simp
  have h: "has_quantities echo_catalog (columns_to_get None)"
    by (simp add: echo_catalog_def)
  show ?thesis
    using catalog_query_tract_filter [of "[10, 20, 30]" echo_catalog None "''mag_i < 24''"] s h
    by (simp add: columns_to_get_def echo_catalog_def)
qed

lemma filters_4850: "filters [4850] = Inr ''(tract == 4850)''"
  by code_simp

text \<open>
  Claim C10: with extra columns given, the names reach the catalog as \<open>np.unique\<close>
  returns them: in ascending order and without duplicates, the base fields and the
  extras together. The first call of every run is the schema test on this list; a run
  is that call alone or, the test having held, that call and one query on the same
  list; and when the test holds and the tract filter is built, the query is made with
  it. The list depends on the set of extras only, not on the order the caller gave
  them in.
\<close>

theorem catalog_query_columns_sorted:
  "sorted (columns_to_get (Some cs)) \<and>
   distinct (columns_to_get (Some cs)) \<and>
   set (columns_to_get (Some cs)) = set (map np_str (base_columns @ cs)) \<and>
   hd (fst (catalog_query cat query (Some cs) tracts)) =
     HasQuantities (columns_to_get (Some cs)) \<and>
   (fst (catalog_query cat query (Some cs) tracts) =
      [HasQuantities (columns_to_get (Some cs))] \<or>
    has_quantities cat (columns_to_get (Some cs)) \<and>
    (\<exists>g. fst (catalog_query cat query (Some cs) tracts) =
           [HasQuantities (columns_to_get (Some cs)),
            GetQuantities (columns_to_get (Some cs)) query g])) \<and>
   list_all (\<lambda>e. event_columns e = columns_to_get (Some cs))
     (fst (catalog_query cat query (Some cs) tracts)) \<and>
   (has_quantities cat (columns_to_get (Some cs)) \<and> filters ts = Inr f \<longrightarrow>
    catalog_query cat query (Some cs) (Some ts) =
      ([HasQuantities (columns_to_get (Some cs)),
        GetQuantities (columns_to_get (Some cs)) query f],
       get_quantities cat (columns_to_get (Some cs)) query f)) \<and>
   (set (map np_str cs) = set (map np_str cs') \<longrightarrow>
    columns_to_get (Some cs) = columns_to_get (Some cs'))"
proof -
  note tr = catalog_query_trace [of cat query "Some cs" tracts]
  have hd: "hd (fst (catalog_query cat query (Some cs) tracts)) =
     HasQuantities (columns_to_get (Some cs))"
    using tr by auto
  have ev: "list_all (\<lambda>e. event_columns e = columns_to_get (Some cs))
     (fst (catalog_query cat query (Some cs) tracts))"
    using tr by (auto simp: event_columns_def)
  have q: "catalog_query cat query (Some cs) (Some ts) =
      ([HasQuantities (columns_to_get (Some cs)),
        GetQuantities (columns_to_get (Some cs)) query f],
       get_quantities cat (columns_to_get (Some cs)) query f)"
    if "has_quantities cat (columns_to_get (Some cs))" "filters ts = Inr f"
    using that by (simp add: catalog_query_Some)
  have ord: "columns_to_get (Some cs) = columns_to_get (Some cs')"
    if "set (map np_str cs) = set (map np_str cs')"
  proof -
    from that
    have "set (map np_str (base_columns @ cs)) = set (map np_str (base_columns @ cs'))"
      by simp
    then have "sort (remdups (map np_str (base_columns @ cs))) =
               sort (remdups (map np_str (base_columns @ cs')))"
      by (metis sorted_list_of_set_sort_remdups)
    then show ?thesis by (simp add: columns_to_get_def np_unique_def)
  qed
  have st: "set (columns_to_get (Some cs)) = set (map np_str (base_columns @ cs))"
    by (simp add: columns_to_get_def set_np_unique image_Un)
  have so: "sorted (columns_to_get (Some cs))" and di: "distinct (columns_to_get (Some cs))"
    by (simp_all add: columns_to_get_def sorted_np_unique distinct_np_unique)
  from q have q': "has_quantities cat (columns_to_get (Some cs)) \<and> filters ts = Inr f \<longrightarrow>
    catalog_query cat query (Some cs) (Some ts) =
      ([HasQuantities (columns_to_get (Some cs)),
        GetQuantities (columns_to_get (Some cs)) query f],
       get_quantities cat (columns_to_get (Some cs)) query f)"
    by (intro impI) (elim conjE)
  from ord have ord': "set (map np_str cs) = set (map np_str cs') \<longrightarrow>
    columns_to_get (Some cs) = columns_to_get (Some cs')"
    by (intro impI)
  show ?thesis
    using so di st hd tr ev q' ord' by (intro conjI)
qed

theorem catalog_query_columns_sorted_witness:
  "set (map np_str [''z_mag'', ''a_flag'']) = set (map np_str [''a_flag'', ''z_mag'']) \<and>
   columns_to_get (Some [''z_mag'', ''a_flag'']) =
     [''a_flag'', ''dec'', ''objectId'', ''patch'', ''ra'', ''tract'', ''z_mag''] \<and>
   columns_to_get (Some [''a_flag'', ''z_mag'']) =
     [''a_flag'', ''dec'', ''objectId'', ''patch'', ''ra'', ''tract'', ''z_mag''] \<and>
   sorted (columns_to_get (Some [''z_mag'', ''a_flag''])) \<and>
   has_quantities echo_catalog (columns_to_get (Some [''z_mag'', ''a_flag''])) \<and>
   filters [4850] = Inr ''(tract == 4850)'' \<and>
   catalog_query echo_catalog ''mag_i < 24'' (Some [''z_mag'', ''a_flag'']) (Some [4850]) =
     ([HasQuantities [''a_flag'', ''dec'', ''objectId'', ''patch'', ''ra'', ''tract'', ''z_mag''],
       GetQuantities [''a_flag'', ''dec'', ''objectId'', ''patch'', ''ra'', ''tract'', ''z_mag'']
         ''mag_i < 24'' ''(tract == 4850)''],
      Inr ([''a_flag'', ''dec'', ''objectId'', ''patch'', ''ra'', ''tract'', ''z_mag''],
           ''mag_i < 24'', ''(tract == 4850)''))"
proof -
  have h: "set (map np_str [''z_mag'', ''a_flag'']) = set (map np_str [''a_flag'', ''z_mag''])"
    by (simp add: insert_commute)
  have v: "columns_to_get (Some [''z_mag'', ''a_flag'']) =
     [''a_flag'', ''dec'', ''objectId'', ''patch'', ''ra'', ''tract'', ''z_mag'']"
    by code_simp
  have hq: "has_quantities echo_catalog (columns_to_get (Some [''z_mag'', ''a_flag'']))"
    by (simp add: echo_catalog_def)
  note t = catalog_query_columns_sorted
      [where cs = "[''z_mag'', ''a_flag'']" and cat = echo_catalog and query = "''mag_i < 24''"
         and tracts = "Some [4850]" and ts = "[4850]" and f = "''(tract == 4850)''"
         and cs' = "[''a_flag'', ''z_mag'']"]
  have ei: "set (map np_str [''z_mag'', ''a_flag'']) = set (map np_str [''a_flag'', ''z_mag'']) \<longrightarrow>
     columns_to_get (Some [''z_mag'', ''a_flag'']) = columns_to_get (Some [''a_flag'', ''z_mag''])"
    using t by (elim conjE)
  have e: "columns_to_get (Some [''z_mag'', ''a_flag'']) =
     columns_to_get (Some [''a_flag'', ''z_mag''])"
    by (rule mp [OF ei h])
  have so: "sorted (columns_to_get (Some [''z_mag'', ''a_flag'']))"
    using t by (elim conjE)
  have qi: "has_quantities echo_catalog (columns_to_get (Some [''z_mag'', ''a_flag''])) \<and>
      filters [4850] = Inr ''(tract == 4850)'' \<longrightarrow>
      catalog_query echo_catalog ''mag_i < 24'' (Some [''z_mag'', ''a_flag'']) (Some [4850]) =
      ([HasQuantities (columns_to_get (Some [''z_mag'', ''a_flag''])),
        GetQuantities (columns_to_get (Some [''z_mag'', ''a_flag''])) ''mag_i < 24''
          ''(tract == 4850)''],
       get_quantities echo_catalog (columns_to_get (Some [''z_mag'', ''a_flag'']))
         ''mag_i < 24'' ''(tract == 4850)'')"
    using t by (elim conjE)
  have q: "catalog_query echo_catalog ''mag_i < 24'' (Some [''z_mag'', ''a_flag'']) (Some [4850]) =
      ([HasQuantities (columns_to_get (Some [''z_mag'', ''a_flag''])),
        GetQuantities (columns_to_get (Some [''z_mag'', ''a_flag''])) ''mag_i < 24''
          ''(tract == 4850)''],
       get_quantities echo_catalog (columns_to_get (Some [''z_mag'', ''a_flag'']))
         ''mag_i < 24'' ''(tract == 4850)'')"
    by (rule mp [OF qi conjI [OF hq filters_4850]])
  have g: "get_quantities echo_catalog c qu fi = Inr (c, qu, fi)" for c qu fi
    by (simp add: echo_catalog_def)
  have q': "catalog_query echo_catalog ''mag_i < 24'' (Some [''z_mag'', ''a_flag'']) (Some [4850]) =
     ([HasQuantities [''a_flag'', ''dec'', ''objectId'', ''patch'', ''ra'', ''tract'', ''z_mag''],
       GetQuantities [''a_flag'', ''dec'', ''objectId'', ''patch'', ''ra'', ''tract'', ''z_mag'']
         ''mag_i < 24'' ''(tract == 4850)''],
      Inr ([''a_flag'', ''dec'', ''objectId'', ''patch'', ''ra'', ''tract'', ''z_mag''],
           ''mag_i < 24'', ''(tract == 4850)''))"
    using q unfolding g v .
  have v': "columns_to_get (Some [''a_flag'', ''z_mag'']) =
     [''a_flag'', ''dec'', ''objectId'', ''patch'', ''ra'', ''tract'', ''z_mag'']"
    using e [symmetric] v by (rule trans)
  show ?thesis
    using h v v' so hq filters_4850 q' by (intro conjI)
qed

section \<open>Properties of \<open>make_postage_stamps\<close>\<close>

lemma get_bands_length: "get_bands g bands = Inr ims \<Longrightarrow> length ims = length bands"
  by (induction bands arbitrary: ims) (auto split: sum.splits)

lemma get_bands_nth:
  "get_bands g bands = Inr ims \<Longrightarrow> j < length bands \<Longrightarrow> g (bands ! j) = Inr (ims ! j)"
proof (induction bands arbitrary: ims j)
  case Nil
  then show ?case by simp
next
  case (Cons b bs)
  then obtain im rest where im: "g b = Inr im" and rest: "get_bands g bs = Inr rest"
    and ims: "ims = im # rest"
    by (auto split: sum.splits)
  show ?case
  proof (cases j)
    case 0
    then show ?thesis using im ims by simp
  next
    case (Suc k)
    then have "k < length bs" using Cons.prems(2) by simp
    then have "g (bs ! k) = Inr (rest ! k)" using Cons.IH [OF rest] by simp
    then show ?thesis using Suc ims by simp
  qed
qed

lemma stamp_length:
  "stamp env skymap cutout_size bands object_this = Inr (cutout, w) \<Longrightarrow>
   length cutout = length bands"
  by (auto simp: stamp_def get_bands_length split: sum.splits list.splits)

lemma stamps_loop_result:
  "stamps_loop env skymap cutout_size bands acc rows = Inr cs \<Longrightarrow>
   \<exists>ys. map (stamp env skymap cutout_size bands) rows = map Inr ys \<and>
        images cs = images acc @ map fst ys \<and>
        wcs cs = wcs acc @ map snd ys \<and>
        GCR cs = GCR acc @ rows"
proof (induction rows arbitrary: acc)
  case Nil
  then show ?case by simp
next
  case (Cons r rest)
  from Cons.prems obtain cutout w where
    st: "stamp env skymap cutout_size bands r = Inr (cutout, w)" and
    lp: "stamps_loop env skymap cutout_size bands
           \<lparr> images = images acc @ [cutout], wcs = wcs acc @ [w], GCR = GCR acc @ [r] \<rparr> rest = Inr cs"
    by (auto split: sum.splits)
  from Cons.IH [OF lp] obtain ys where
    ys: "map (stamp env skymap cutout_size bands) rest = map Inr ys"
        "images cs = (images acc @ [cutout]) @ map fst ys"
        "wcs cs = (wcs acc @ [w]) @ map snd ys"
        "GCR cs = (GCR acc @ [r]) @ rest"
    by auto
  have "map (stamp env skymap cutout_size bands) (r # rest) = map Inr ((cutout, w) # ys)"
    using st ys(1) by simp
  moreover have "images cs = images acc @ map fst ((cutout, w) # ys)" using ys(2) by simp
  moreover have "wcs cs = wcs acc @ map snd ((cutout, w) # ys)" using ys(3) by simp
  moreover have "GCR cs = GCR acc @ r # rest" using ys(4) by simp
  ultimately show ?case by blast
qed

lemma stamps_loop_returns:
  "map (stamp env skymap cutout_size bands) rows = map Inr ys \<Longrightarrow>
   stamps_loop env skymap cutout_size bands acc rows =
     Inr \<lparr> images = images acc @ map fst ys, wcs = wcs acc @ map snd ys, GCR = GCR acc @ rows \<rparr>"
proof (induction rows arbitrary: acc ys)
  case Nil
  then show ?case by simp
next
  case (Cons r rest)
  then obtain y ys' where ys: "ys = y # ys'" by (cases ys) auto
  with Cons.prems have st: "stamp env skymap cutout_size bands r = Inr y"
    and rest: "map (stamp env skymap cutout_size bands) rest = map Inr ys'"
    by auto
  show ?case
    using st ys Cons.IH [OF rest] by (cases y) simp
qed

lemma make_postage_stamps_returns:
  "get_skyMap env = Inr skymap \<Longrightarrow>
   map (stamp env skymap cutout_size bands) objects = map Inr ys \<Longrightarrow>
   make_postage_stamps env objects cutout_size bands =
     Inr \<lparr> images = map fst ys, wcs = map snd ys, GCR = objects \<rparr>"
  by (simp add: make_postage_stamps_def stamps_loop_returns)

lemma two_rows:
  "make_postage_stamps echo_stack [row_a, row_b] 100 ''irg'' = Inr two_stamps"
  by (simp add: make_postage_stamps_def echo_stack_def stamp_def object_bbox_def
      row_a_def row_b_def two_stamps_def)

text \<open>
  Claim C5: a cutout set returned for a table of N rows and B bands has three lists
  of length N, every list of band images has length B, and entry \<open>i\<close> of each list
  belongs to row \<open>i\<close>: the source rows are the table itself, and the band images and
  the metadata at \<open>i\<close> are what one turn of the loop yields for row \<open>i\<close>.
\<close>

theorem make_postage_stamps_parallel:
  "make_postage_stamps env objects cutout_size bands = Inr cs \<Longrightarrow>
   length (images cs) = length objects \<and>
   length (wcs cs) = length objects \<and>
   length (GCR cs) = length objects \<and>
   list_all (\<lambda>cutout. length cutout = length bands) (images cs) \<and>
   GCR cs = objects \<and>
   (\<exists>skymap. get_skyMap env = Inr skymap \<and>
      map (stamp env skymap cutout_size bands) objects = map Inr (zip (images cs) (wcs cs)))"
proof -
  assume r: "make_postage_stamps env objects cutout_size bands = Inr cs"
  then obtain skymap where sm: "get_skyMap env = Inr skymap"
    and lp: "stamps_loop env skymap cutout_size bands \<lparr> images = [], wcs = [], GCR = [] \<rparr> objects = Inr cs"
    by (auto simp: make_postage_stamps_def split: sum.splits)
  from stamps_loop_result [OF lp] obtain ys where
    ys: "map (stamp env skymap cutout_size bands) objects = map Inr ys"
    and im: "images cs = map fst ys" and w: "wcs cs = map snd ys" and g: "GCR cs = objects"
    by auto
  have len: "length ys = length objects"
    using ys by (metis length_map)
  have z: "zip (images cs) (wcs cs) = ys"
    unfolding im w by (simp add: zip_map_fst_snd)
  have "\<forall>y \<in> set ys. length (fst y) = length bands"
  proof
    fix y assume "y \<in> set ys"
    then have "Inr y \<in> set (map (stamp env skymap cutout_size bands) objects)"
      using ys by simp
    then obtain row where "row \<in> set objects" "stamp env skymap cutout_size bands row = Inr y"
      by auto
    then show "length (fst y) = length bands"
      using stamp_length [of env skymap cutout_size bands row "fst y" "snd y"] by simp
  qed
  then have "list_all (\<lambda>cutout. length cutout = length bands) (images cs)"
    unfolding im by (simp add: list_all_iff)
  then show ?thesis using sm ys len im w g z by auto
qed

theorem make_postage_stamps_parallel_witness:
  "make_postage_stamps echo_stack [row_a, row_b] 100 ''irg'' = Inr two_stamps \<and>
   length (images two_stamps) = 2 \<and>
   length (wcs two_stamps) = 2 \<and>
   length (GCR two_stamps) = 2 \<and>
   list_all (\<lambda>cutout. length cutout = 3) (images two_stamps) \<and>
   GCR two_stamps = [row_a, row_b]"
  using make_postage_stamps_parallel [OF two_rows] two_rows
  by (simp add: numeral_2_eq_2 numeral_3_eq_3)

text \<open>
  Claim C8: for an empty table and any band string the method returns the cutout set
  with three empty lists. The one call made before the loop is the retrieval of the
  sky map from the butler, which is taken to succeed.
\<close>

theorem make_postage_stamps_empty:
  "get_skyMap env = Inr skymap \<Longrightarrow>
   make_postage_stamps env [] cutout_size bands = Inr \<lparr> images = [], wcs = [], GCR = [] \<rparr>"
  by (simp add: make_postage_stamps_def)

theorem make_postage_stamps_empty_witness:
  "get_skyMap echo_stack = Inr () \<and>
   make_postage_stamps echo_stack ([] :: object_row list) 100 ''irg'' =
     Inr \<lparr> images = [], wcs = [], GCR = [] \<rparr>"
proof -
  have h: "get_skyMap echo_stack = Inr ()" by (simp add: echo_stack_def)
  show ?thesis
    by (rule conjI [OF h make_postage_stamps_empty [OF h]])
qed

section \<open>Properties of \<open>display_cutouts\<close>\<close>

lemma isqrt_bounds: "isqrt n * isqrt n \<le> n \<and> n < (isqrt n + 1) * (isqrt n + 1)"
proof (induction n)
  case 0
  show ?case by simp
next
  case (Suc n)
  show ?case
  proof (cases "(isqrt n + 1) * (isqrt n + 1) \<le> Suc n")
    case True
    then have "isqrt (Suc n) = isqrt n + 1" by (simp add: Let_def)
    moreover have "Suc n < (isqrt n + 2) * (isqrt n + 2)"
      using Suc by (simp add: algebra_simps)
    ultimately show ?thesis using True by (simp add: algebra_simps)
  next
    case False
    then have "isqrt (Suc n) = isqrt n" by (simp add: Let_def)
    then show ?thesis using False Suc by simp
  qed
qed

lemma floor_sqrt_isqrt: "\<lfloor>sqrt (real n)\<rfloor> = int (isqrt n)"
proof (rule floor_unique)
  have "real (isqrt n * isqrt n) \<le> real n"
    using isqrt_bounds [of n] by (simp only: of_nat_le_iff)
  then have "(real (isqrt n))\<^sup>2 \<le> real n" by (simp only: power2_eq_square of_nat_mult)
  then have "real (isqrt n) \<le> sqrt (real n)" by (rule real_le_rsqrt)
  then show "of_int (int (isqrt n)) \<le> sqrt (real n)" by simp
  have "real n < real ((isqrt n + 1) * (isqrt n + 1))"
    using isqrt_bounds [of n] by (simp only: of_nat_less_iff)
  also have "\<dots> = (real (isqrt n + 1))\<^sup>2"
    by (simp only: power2_eq_square of_nat_mult)
  finally have "real n < (real (isqrt n + 1))\<^sup>2" .
  then have "sqrt (real n) < real (isqrt n + 1)"
    by (intro real_less_lsqrt) simp_all
  then show "sqrt (real n) < of_int (int (isqrt n)) + 1" by simp
qed

lemma grid_side_isqrt: "grid_side n = isqrt n + 1"
proof -
  have "\<lfloor>sqrt (real n) + 1\<rfloor> = \<lfloor>sqrt (real n)\<rfloor> + 1" by simp
  then show ?thesis by (simp add: grid_side_def floor_sqrt_isqrt nat_add_distrib)
qed

lemma grid_side_floor: "grid_side n = nat \<lfloor>sqrt (real n)\<rfloor> + 1"
  by (simp add: grid_side_isqrt floor_sqrt_isqrt)

lemma grid_side_enough: "n < grid_side n * grid_side n"
  using isqrt_bounds [of n] by (simp add: grid_side_isqrt)


lemma draw_entry_cell:
  "draw_entry plt cs side i = Inr ax \<Longrightarrow> cell ax = i \<and> i < side * side"
  by (auto simp: draw_entry_def gs_getitem_def split: sum.splits if_splits)

lemma display_loop_cells:
  "display_loop plt cs side idx drawn = Inr axs \<Longrightarrow>
   map cell axs = map cell drawn @ idx"
proof (induction idx arbitrary: drawn)
  case Nil
  then show ?case by simp
next
  case (Cons i rest)
  from Cons.prems obtain ax where
    d: "draw_entry plt cs side i = Inr ax" and
    lp: "display_loop plt cs side rest (drawn @ [ax]) = Inr axs"
    by (auto split: sum.splits)
  have "cell ax = i" using draw_entry_cell [OF d] by simp
  then show ?case using Cons.IH [OF lp] by simp
qed

lemma gs_getitem_enough: "i < n \<Longrightarrow> gs_getitem (grid_side n) (grid_side n) i = Inr i"
  using grid_side_enough [of n] by (simp add: gs_getitem_def)

lemma display_two: "display_cutouts echo_plotting two_stamps 100 = Inr two_figure"
proof -
  have g: "grid_side (Suc (Suc 0)) = 2" unfolding grid_side_isqrt by code_simp
  have u: "[0 ..< 2] = [0, Suc 0]" by (simp add: upt_rec)
  have s7: "str_int 7 = ''7''" by code_simp
  have s12: "str_int 12 = ''12''" by code_simp
  show ?thesis
    by (simp add: display_cutouts_def two_stamps_def two_figure_def g u s7 s12 draw_entry_def
        getitem_def gs_getitem_def echo_plotting_def row_a_def row_b_def)
qed

lemma draw_entry_content:
  "draw_entry plt cs side i = Inr ax \<Longrightarrow>
   i < length (images cs) \<and> i < length (wcs cs) \<and> i < length (GCR cs) \<and>
   cell ax = i \<and>
   makeRGB plt (images cs ! i) 2 8 = Inr (shown ax) \<and>
   WCS plt (wcs cs ! i) = Inr (projection ax) \<and>
   label ax = str_int (objectId (GCR cs ! i))"
  by (auto simp: draw_entry_def gs_getitem_def getitem_def split: sum.splits if_splits)

lemma display_loop_entries:
  "display_loop plt cs side idx drawn = Inr axs \<Longrightarrow>
   \<exists>new. axs = drawn @ new \<and> map (draw_entry plt cs side) idx = map Inr new"
proof (induction idx arbitrary: drawn)
  case Nil
  then show ?case by simp
next
  case (Cons i rest)
  from Cons.prems obtain ax where
    d: "draw_entry plt cs side i = Inr ax" and
    lp: "display_loop plt cs side rest (drawn @ [ax]) = Inr axs"
    by (auto split: sum.splits)
  from Cons.IH [OF lp] obtain new where
    n: "axs = (drawn @ [ax]) @ new" "map (draw_entry plt cs side) rest = map Inr new"
    by blast
  have "axs = drawn @ (ax # new)" using n(1) by simp
  moreover have "map (draw_entry plt cs side) (i # rest) = map Inr (ax # new)"
    using d n(2) by simp
  ultimately show ?case by blast
qed

text \<open>
  Claim C7: for a cutout set of N entries the grid is square with side
  \<open>floor (sqrt N) + 1\<close>, it has more than N cells, so that \<open>gs[i]\<close> is cell \<open>i\<close> for
  every entry, and the axes drawn are, in order, what one turn of the loop yields for
  the entries \<open>0, ..., N - 1\<close>: the axes at \<open>i\<close> is in cell \<open>i\<close>, shows the picture made
  of the band images of entry \<open>i\<close>, has the projection of its metadata and the label
  of its object. No cell is used twice.
\<close>

theorem display_cutouts_grid:
  "grid_side (length (images cs)) = nat \<lfloor>sqrt (real (length (images cs)))\<rfloor> + 1 \<and>
   length (images cs) < grid_side (length (images cs)) * grid_side (length (images cs)) \<and>
   (\<forall>i < length (images cs).
      gs_getitem (grid_side (length (images cs))) (grid_side (length (images cs))) i = Inr i) \<and>
   (display_cutouts plt cs cutout_size = Inr fig \<longrightarrow>
      nrows fig = grid_side (length (images cs)) \<and>
      ncols fig = grid_side (length (images cs)) \<and>
      map cell (subplots fig) = [0 ..< length (images cs)] \<and>
      distinct (map cell (subplots fig)) \<and>
      map (draw_entry plt cs (grid_side (length (images cs)))) [0 ..< length (images cs)] =
        map Inr (subplots fig) \<and>
      length (subplots fig) = length (images cs) \<and>
      length (images cs) \<le> length (wcs cs) \<and>
      length (images cs) \<le> length (GCR cs) \<and>
      (\<forall>i < length (images cs).
         cell (subplots fig ! i) = i \<and>
         makeRGB plt (images cs ! i) 2 8 = Inr (shown (subplots fig ! i)) \<and>
         WCS plt (wcs cs ! i) = Inr (projection (subplots fig ! i)) \<and>
         label (subplots fig ! i) = str_int (objectId (GCR cs ! i))))"
proof -
  let ?n = "length (images cs)"
  have "nrows fig = grid_side ?n \<and>
      ncols fig = grid_side ?n \<and>
      map cell (subplots fig) = [0 ..< ?n] \<and>
      distinct (map cell (subplots fig)) \<and>
      map (draw_entry plt cs (grid_side ?n)) [0 ..< ?n] = map Inr (subplots fig) \<and>
      length (subplots fig) = ?n \<and>
      ?n \<le> length (wcs cs) \<and>
      ?n \<le> length (GCR cs) \<and>
      (\<forall>i < ?n.
         cell (subplots fig ! i) = i \<and>
         makeRGB plt (images cs ! i) 2 8 = Inr (shown (subplots fig ! i)) \<and>
         WCS plt (wcs cs ! i) = Inr (projection (subplots fig ! i)) \<and>
         label (subplots fig ! i) = str_int (objectId (GCR cs ! i)))"
    if r: "display_cutouts plt cs cutout_size = Inr fig"
  proof -
    from r obtain axs where
      lp: "display_loop plt cs (grid_side ?n) [0 ..< ?n] [] = Inr axs"
      and fig: "fig = \<lparr> nrows = grid_side ?n, ncols = grid_side ?n, subplots = axs \<rparr>"
      by (auto simp: display_cutouts_def Let_def split: sum.splits)
    have cells: "map cell axs = [0 ..< ?n]"
      using display_loop_cells [OF lp] by simp
    from display_loop_entries [OF lp]
    have ent: "map (draw_entry plt cs (grid_side ?n)) [0 ..< ?n] = map Inr axs"
      by simp
    have len: "length axs = ?n"
      using cells by (metis length_map length_upt minus_nat.diff_0)
    have each: "draw_entry plt cs (grid_side ?n) i = Inr (axs ! i)" if "i < ?n" for i
    proof -
      have "map (draw_entry plt cs (grid_side ?n)) [0 ..< ?n] ! i = map Inr axs ! i"
        using ent by simp
      then show ?thesis using that len by simp
    qed
    have cont: "cell (axs ! i) = i \<and>
         makeRGB plt (images cs ! i) 2 8 = Inr (shown (axs ! i)) \<and>
         WCS plt (wcs cs ! i) = Inr (projection (axs ! i)) \<and>
         label (axs ! i) = str_int (objectId (GCR cs ! i))" if "i < ?n" for i
      using draw_entry_content [OF each [OF that]] by simp
    have lw: "?n \<le> length (wcs cs)"
    proof (cases "?n")
      case 0
      then show ?thesis by simp
    next
      case (Suc k)
      then have "k < ?n" by simp
      from draw_entry_content [OF each [OF this]] have "k < length (wcs cs)" by simp
      then show ?thesis using Suc by simp
    qed
    have lg: "?n \<le> length (GCR cs)"
    proof (cases "?n")
      case 0
      then show ?thesis by simp
    next
      case (Suc k)
      then have "k < ?n" by simp
      from draw_entry_content [OF each [OF this]] have "k < length (GCR cs)" by simp
      then show ?thesis using Suc by simp
    qed
    show ?thesis
      using fig cells ent len lw lg cont by simp
  qed
  then show ?thesis
    using grid_side_floor [of ?n] grid_side_enough [of ?n] gs_getitem_enough [of _ ?n]
    by blast
qed

theorem display_cutouts_grid_witness:
  "display_cutouts echo_plotting two_stamps 100 = Inr two_figure \<and>
   length (images two_stamps) = 2 \<and>
   grid_side 2 = 2 \<and>
   nrows two_figure = 2 \<and> ncols two_figure = 2 \<and>
   map cell (subplots two_figure) = [0, 1] \<and>
   gs_getitem 2 2 0 = Inr 0 \<and> gs_getitem 2 2 1 = Inr 1 \<and>
   map (draw_entry echo_plotting two_stamps 2) [0, 1] = map Inr (subplots two_figure) \<and>
   map label (subplots two_figure) = [''7'', ''12''] \<and>
   map (\<lambda>r. str_int (objectId r)) (GCR two_stamps) = [''7'', ''12'']"
proof -
  have l: "length (images two_stamps) = 2" by (simp add: two_stamps_def)
  have g: "grid_side 2 = 2" unfolding grid_side_isqrt by code_simp
  note t = display_cutouts_grid [of two_stamps echo_plotting 100 two_figure]
  have ti: "display_cutouts echo_plotting two_stamps 100 = Inr two_figure \<longrightarrow>
      nrows two_figure = grid_side (length (images two_stamps)) \<and>
      ncols two_figure = grid_side (length (images two_stamps)) \<and>
      map cell (subplots two_figure) = [0 ..< length (images two_stamps)] \<and>
      distinct (map cell (subplots two_figure)) \<and>
      map (draw_entry echo_plotting two_stamps (grid_side (length (images two_stamps))))
        [0 ..< length (images two_stamps)] = map Inr (subplots two_figure) \<and>
      length (subplots two_figure) = length (images two_stamps) \<and>
      length (images two_stamps) \<le> length (wcs two_stamps) \<and>
      length (images two_stamps) \<le> length (GCR two_stamps) \<and>
      (\<forall>i < length (images two_stamps).
         cell (subplots two_figure ! i) = i \<and>
         makeRGB echo_plotting (images two_stamps ! i) 2 8 = Inr (shown (subplots two_figure ! i)) \<and>
         WCS echo_plotting (wcs two_stamps ! i) = Inr (projection (subplots two_figure ! i)) \<and>
         label (subplots two_figure ! i) = str_int (objectId (GCR two_stamps ! i)))"
    using t by (elim conjE)
  note r = mp [OF ti display_two]
  have u: "[0 ..< 2] = [0, 1::nat]" by (simp add: upt_rec)
  have c: "map cell (subplots two_figure) = [0, 1]"
    using r unfolding l u by (elim conjE)
  have d: "map (draw_entry echo_plotting two_stamps 2) [0, 1] = map Inr (subplots two_figure)"
    using r unfolding l g u by (elim conjE)
  have s7: "str_int 7 = ''7''" by code_simp
  have s12: "str_int 12 = ''12''" by code_simp
  show ?thesis
    using display_two l g c d s7 s12
    by (simp add: two_figure_def two_stamps_def gs_getitem_def row_a_def row_b_def)
qed

text \<open>
  Claim C9: the figure does not depend on the argument \<open>cutout_size\<close>: two calls that
  differ in it alone lay out and draw the same.
\<close>

theorem display_cutouts_ignores_cutout_size: "display_cutouts plt cs s1 = display_cutouts plt cs s2"
  by (simp add: display_cutouts_def)


end
